theory Spec2Isabelle
  imports Main
begin

unbundle bit_operations_syntax

section \<open>JavaScript values used by the front end\<close>

text \<open>
  A JavaScript string is represented by the bytes of its UTF-8 encoding, so that
  \<open>new TextEncoder().encode(s)\<close> is the list of byte values of \<open>s\<close> and string concatenation
  is list append. Strings are taken to be well formed (no lone surrogates). The length of the
  JavaScript string, in UTF-16 code units, is \<open>utf16_length\<close> of its bytes: one unit for every
  byte that starts a character and a second one for the characters of four bytes.

  An engine puts a limit on the length of a string (\<open>2 ^ 29 - 24\<close> in V8, other values in
  other engines, all of them far above the length of the fixed texts and of the 64 hex
  digits that the program builds). Building a longer string throws a RangeError. The limit
  is the parameter \<open>limit\<close> of the operations whose result grows with their input.

  The loop counter \<open>nonce\<close> is a JavaScript Number holding a non-negative integer. Such a
  value is exact up to \<open>2 ^ 53\<close>; the increment \<open>nonce++\<close> is exact below that bound and
  rounds back to \<open>2 ^ 53\<close> at the bound (ties to even), which \<open>js_increment\<close> writes out.
\<close>

text \<open>
  The values that a response body can hold, with \<open>undefined\<close> for what is absent. A number is
  represented by its string form (the result of \<open>Number.prototype.toString\<close>): the program
  only tests a number for truthiness and turns it into text.
\<close>

datatype js_value =
    JUndefined
  | JNull
  | JBool bool
  | JNumber string
  | JString string
  | JArray "js_value list"
  | JObject "(string \<times> js_value) list"

text \<open>\<open>ToBoolean\<close>: what \<open>||\<close> and \<open>if\<close> test.\<close>

fun to_boolean :: "js_value \<Rightarrow> bool" where
  "to_boolean JUndefined = False"
| "to_boolean JNull = False"
| "to_boolean (JBool b) = b"
| "to_boolean (JNumber s) = (s \<noteq> ''0'' \<and> s \<noteq> ''NaN'')"
| "to_boolean (JString s) = (s \<noteq> [])"
| "to_boolean (JArray _) = True"
| "to_boolean (JObject _) = True"

definition js_or :: "js_value \<Rightarrow> js_value \<Rightarrow> js_value" where
  "js_or v d = (if to_boolean v then v else d)"

fun join :: "string \<Rightarrow> string list \<Rightarrow> string" where
  "join sep [] = []"
| "join sep [x] = x"
| "join sep (x # y # ys) = x @ sep @ join sep (y # ys)"

text \<open>
  \<open>ToString\<close>, as string concatenation applies it (objects are plain objects). The strings
  built on the way are parts of the result, so that building it throws only when the result
  is longer than the limit; \<open>js_concat\<close> on the result throws then as well.
\<close>

fun ToString :: "js_value \<Rightarrow> string" where
  "ToString JUndefined = ''undefined''"
| "ToString JNull = ''null''"
| "ToString (JBool b) = (if b then ''true'' else ''false'')"
| "ToString (JNumber s) = s"
| "ToString (JString s) = s"
| "ToString (JArray vs) =
     join '','' (map (\<lambda>v. if v = JUndefined \<or> v = JNull then [] else ToString v) vs)"
| "ToString (JObject _) = ''[object Object]''"

text \<open>
  What is thrown or what a promise rejects with. An \<open>AxiosError\<close> carries the value of
  \<open>error.response?.data?.detail\<close>, which is \<open>undefined\<close> when there is no response (a network
  failure), no body or no such field. The other errors have no \<open>response\<close>.
\<close>

datatype js_exception =
    RangeError
  | TypeError
  | AxiosError js_value

definition utf16_length :: "string \<Rightarrow> nat" where
  "utf16_length s =
     length (filter (\<lambda>c. \<not> (128 \<le> (of_char c :: nat) \<and> (of_char c :: nat) < 192)) s)
     + length (filter (\<lambda>c. 240 \<le> (of_char c :: nat)) s)"

text \<open>String concatenation, as \<open>+\<close> and a template literal do it.\<close>

definition js_concat :: "nat \<Rightarrow> string \<Rightarrow> string \<Rightarrow> js_exception + string" where
  "js_concat limit a b =
     (if limit < utf16_length a + utf16_length b then Inl RangeError else Inr (a @ b))"

definition MAX_EXACT :: nat where
  "MAX_EXACT = 9007199254740992"

definition js_increment :: "nat \<Rightarrow> nat" where
  "js_increment n = (if n < MAX_EXACT then n + 1 else n)"

definition digit_char :: "nat \<Rightarrow> char" where
  "digit_char d = ''0123456789abcdefghijklmnopqrstuvwxyz'' ! d"

text \<open>\<open>Number.prototype.toString(radix)\<close> on a non-negative integer below \<open>10 ^ 21\<close>.\<close>

function toString_radix :: "nat \<Rightarrow> nat \<Rightarrow> string" where
  "toString_radix r n =
     (if r < 2 \<or> n < r then [digit_char n]
      else toString_radix r (n div r) @ [digit_char (n mod r)])"
  by pat_completeness auto
termination
  by (relation "measure snd") auto

declare toString_radix.simps [simp del]

definition toString :: "nat \<Rightarrow> string" where
  "toString n = toString_radix 10 n"

text \<open>\<open>String.prototype.padStart\<close> with a one-character filler.\<close>

definition padStart :: "nat \<Rightarrow> char \<Rightarrow> string \<Rightarrow> string" where
  "padStart n c s = replicate (n - length s) c @ s"

text \<open>
  \<open>String.prototype.repeat\<close> on an integer count: a negative count throws a RangeError, and so
  does a result longer than the engine allows a string to be.
\<close>

definition repeat :: "nat \<Rightarrow> string \<Rightarrow> int \<Rightarrow> js_exception + string" where
  "repeat limit s count =
     (if count < 0 \<or> limit < utf16_length s * nat count then Inl RangeError
      else Inr (concat (replicate (nat count) s)))"

text \<open>\<open>String.prototype.startsWith\<close> at position 0.\<close>

definition startsWith :: "string \<Rightarrow> string \<Rightarrow> bool" where
  "startsWith s search = (if length s < length search then False else take (length search) s = search)"

definition TextEncoder_encode :: "string \<Rightarrow> nat list" where
  "TextEncoder_encode s = map of_char s"

section \<open>SHA-256, the digest computed by \<open>crypto.subtle.digest\<close>\<close>

text \<open>
  The platform's SHA-256 (FIPS 180-4) on a list of byte values. 32-bit words are natural
  numbers below \<open>2 ^ 32\<close>, with the reduction modulo \<open>2 ^ 32\<close> written out in \<open>add32\<close>.
  The round constants \<open>K256\<close> and the initial hash value \<open>H256\<close> are given in decimal;
  the first are \<open>0x428a2f98\<close> and \<open>0x6a09e667\<close>.
\<close>

type_synonym u32 = nat

definition K256 :: "u32 list" where
  "K256 =
   [1116352408, 1899447441, 3049323471, 3921009573, 961987163, 1508970993,
    2453635748, 2870763221, 3624381080, 310598401, 607225278, 1426881987,
    1925078388, 2162078206, 2614888103, 3248222580, 3835390401, 4022224774,
    264347078, 604807628, 770255983, 1249150122, 1555081692, 1996064986,
    2554220882, 2821834349, 2952996808, 3210313671, 3336571891, 3584528711,
    113926993, 338241895, 666307205, 773529912, 1294757372, 1396182291,
    1695183700, 1986661051, 2177026350, 2456956037, 2730485921, 2820302411,
    3259730800, 3345764771, 3516065817, 3600352804, 4094571909, 275423344,
    430227734, 506948616, 659060556, 883997877, 958139571, 1322822218,
    1537002063, 1747873779, 1955562222, 2024104815, 2227730452, 2361852424,
    2428436474, 2756734187, 3204031479, 3329325298]"

definition add32 :: "u32 \<Rightarrow> u32 \<Rightarrow> u32" where
  "add32 a b = (a + b) mod 4294967296"

definition rotr :: "nat \<Rightarrow> u32 \<Rightarrow> u32" where
  "rotr k a = drop_bit k a + push_bit (32 - k) (take_bit k a)"

definition Ch :: "u32 \<Rightarrow> u32 \<Rightarrow> u32 \<Rightarrow> u32" where
  "Ch e f g = (e AND f) XOR ((e XOR 4294967295) AND g)"

definition Maj :: "u32 \<Rightarrow> u32 \<Rightarrow> u32 \<Rightarrow> u32" where
  "Maj a b c = (a AND b) XOR (a AND c) XOR (b AND c)"

definition Sigma0 :: "u32 \<Rightarrow> u32" where
  "Sigma0 a = rotr 2 a XOR rotr 13 a XOR rotr 22 a"

definition Sigma1 :: "u32 \<Rightarrow> u32" where
  "Sigma1 e = rotr 6 e XOR rotr 11 e XOR rotr 25 e"

definition sigma0 :: "u32 \<Rightarrow> u32" where
  "sigma0 w = rotr 7 w XOR rotr 18 w XOR drop_bit 3 w"

definition sigma1 :: "u32 \<Rightarrow> u32" where
  "sigma1 w = rotr 17 w XOR rotr 19 w XOR drop_bit 10 w"

definition be64 :: "nat \<Rightarrow> nat list" where
  "be64 x = [drop_bit 56 x mod 256, drop_bit 48 x mod 256, drop_bit 40 x mod 256,
             drop_bit 32 x mod 256, drop_bit 24 x mod 256, drop_bit 16 x mod 256,
             drop_bit 8 x mod 256, x mod 256]"

definition be32 :: "u32 \<Rightarrow> nat list" where
  "be32 x = [drop_bit 24 x mod 256, drop_bit 16 x mod 256, drop_bit 8 x mod 256, x mod 256]"

definition pad :: "nat list \<Rightarrow> nat list" where
  "pad m = m @ [0x80] @ replicate ((119 - length m mod 64) mod 64) 0 @ be64 (8 * length m)"

fun be_words :: "nat list \<Rightarrow> u32 list" where
  "be_words (a # b # c # d # bs) =
     (push_bit 24 a + push_bit 16 b + push_bit 8 c + d) # be_words bs"
| "be_words _ = []"

text \<open>
  The message schedule: \<open>schedule n w\<close> lists the next \<open>n\<close> words, \<open>w\<close> being the window of
  the sixteen words \<open>W\<^bsub>t-16\<^esub>, \<dots>, W\<^bsub>t-1\<^esub>\<close>.
\<close>

fun schedule :: "nat \<Rightarrow> u32 list \<Rightarrow> u32 list" where
  "schedule 0 w = []"
| "schedule (Suc n) w =
     hd w # schedule n (tl w @ [add32 (add32 (add32 (sigma1 (w ! 14)) (w ! 9)) (sigma0 (w ! 1))) (w ! 0)])"

type_synonym sha_state = "u32 \<times> u32 \<times> u32 \<times> u32 \<times> u32 \<times> u32 \<times> u32 \<times> u32"

fun round :: "sha_state \<Rightarrow> u32 \<times> u32 \<Rightarrow> sha_state" where
  "round (a, b, c, d, e, f, g, h) (k, w) =
     (let T1 = add32 (add32 (add32 (add32 h (Sigma1 e)) (Ch e f g)) k) w;
          T2 = add32 (Sigma0 a) (Maj a b c)
      in (add32 T1 T2, a, b, c, add32 d T1, e, f, g))"

fun compress :: "sha_state \<Rightarrow> u32 list \<Rightarrow> sha_state" where
  "compress (a, b, c, d, e, f, g, h) m =
     (case foldl round (a, b, c, d, e, f, g, h) (zip K256 (schedule 64 m)) of
        (a', b', c', d', e', f', g', h') \<Rightarrow>
          (add32 a a', add32 b b', add32 c c', add32 d d',
           add32 e e', add32 f f', add32 g g', add32 h h'))"

fun blocks :: "sha_state \<Rightarrow> u32 list \<Rightarrow> sha_state" where
  "blocks s ws = (if length ws < 16 then s else blocks (compress s (take 16 ws)) (drop 16 ws))"

definition H256 :: sha_state where
  "H256 = (1779033703, 3144134277, 1013904242, 2773480762,
           1359893119, 2600822924, 528734635, 1541459225)"

fun digest_bytes :: "sha_state \<Rightarrow> nat list" where
  "digest_bytes (a, b, c, d, e, f, g, h) = concat (map be32 [a, b, c, d, e, f, g, h])"

definition sha256 :: "nat list \<Rightarrow> nat list" where
  "sha256 m = digest_bytes (blocks H256 (be_words (pad m)))"

declare blocks.simps [simp del] compress.simps [simp del] round.simps [simp del]

section \<open>The proof-of-work solver of the Register component\<close>

record pow =
  nonce :: string
  hash :: string

text \<open>
  The message of one attempt, \<^verbatim>\<open>`${challenge}${nonce}`\<close>, and the hash of a message:
  \<^verbatim>\<open>hashArray.map(b => b.toString(16).padStart(2, '0')).join('')\<close>
  over the digest of the encoded message. \<open>attempt_hash challenge n\<close> is the hash of the
  attempt with nonce \<open>n\<close>.
\<close>

definition dataString :: "nat \<Rightarrow> string \<Rightarrow> nat \<Rightarrow> js_exception + string" where
  "dataString limit challenge n = js_concat limit challenge (toString n)"

definition hex_join :: "nat list \<Rightarrow> string" where
  "hex_join hashArray = concat (map (\<lambda>b. padStart 2 CHR ''0'' (toString_radix 16 b)) hashArray)"

definition hash_of :: "string \<Rightarrow> string" where
  "hash_of message = hex_join (sha256 (TextEncoder_encode message))"

definition attempt_hash :: "string \<Rightarrow> nat \<Rightarrow> string" where
  "attempt_hash challenge n = hash_of (challenge @ toString n)"

text \<open>
  The \<^verbatim>\<open>while (true)\<close> loop. It has no bound, so it is a partial function: \<open>None\<close> is the
  run that never leaves the loop. The objects \<open>userData\<close> and \<open>verifyData\<close> that the loop
  body updates are never read and are left out.
\<close>

partial_function (option) calculateProofOfWork_loop ::
  "nat \<Rightarrow> string \<Rightarrow> string \<Rightarrow> nat \<Rightarrow> (js_exception + pow) option" where
  "calculateProofOfWork_loop limit challenge target n =
     (case dataString limit challenge n of
        Inl e \<Rightarrow> Some (Inl e)
      | Inr message \<Rightarrow>
          if startsWith (hash_of message) target
          then Some (Inr \<lparr>nonce = toString n, hash = hash_of message\<rparr>)
          else calculateProofOfWork_loop limit challenge target (js_increment n))"

definition calculateProofOfWork :: "nat \<Rightarrow> string \<Rightarrow> int \<Rightarrow> (js_exception + pow) option" where
  "calculateProofOfWork limit challenge difficulty =
     (case repeat limit ''0'' difficulty of
        Inl e \<Rightarrow> Some (Inl e)
      | Inr target \<Rightarrow> calculateProofOfWork_loop limit challenge target 0)"

section \<open>Promises, the API object and browser storage\<close>

text \<open>
  A call of a method of the API object returns a promise, which either resolves with the
  response data or rejects with an error; a call inside \<open>try\<close> that throws has the outcome of a
  rejection. \<open>services\<close> holds, for each method that the components call on \<open>api\<close>, the
  outcome of the call (\<open>getCurrentUser\<close> may depend on what is in storage when it is called,
  \<open>loginUser\<close> resolves with \<open>response.data.access_token\<close>).

  The object that \<open>services/api.js\<close> exports defines \<open>getChallenge\<close> and \<open>registerUser\<close>
  only. \<open>api_js\<close> is that object: the answers of the server to its two requests are its
  parameters, and a call of \<open>api.loginUser\<close> or \<open>api.getCurrentUser\<close> throws a TypeError,
  the property being \<open>undefined\<close>. \<open>api_log\<close> and \<open>requests\<close> below list the method calls that
  the components make, in order.
\<close>

datatype 'a outcome = Resolved 'a | Rejected js_exception

record challenge_data =
  challenge :: string
  difficulty :: int
  token :: string

text \<open>The object \<open>userData\<close> posted by the Register component (fields prefixed with \<open>ud_\<close>).\<close>

datatype user_data =
  UserData (ud_username: string) (ud_password: string) (ud_nonce: string) (ud_hash: string)
    (ud_active: bool)

datatype profile = Profile (profile_username: string)

type_synonym storage = "string \<rightharpoonup> string"

datatype api_call =
    GetChallenge
  | RegisterUser user_data string
  | LoginUser string string
  | GetCurrentUser

record services =
  getChallenge :: "challenge_data outcome"
  registerUser :: "user_data \<Rightarrow> string \<Rightarrow> unit outcome"
  loginUser :: "string \<Rightarrow> string \<Rightarrow> string outcome"
  getCurrentUser :: "storage \<Rightarrow> profile outcome"

definition api_js ::
  "challenge_data outcome \<Rightarrow> (user_data \<Rightarrow> string \<Rightarrow> unit outcome) \<Rightarrow> services" where
  "api_js challenge_answer register_answer =
     \<lparr>getChallenge = challenge_answer,
      registerUser = register_answer,
      loginUser = (\<lambda>_ _. Rejected TypeError),
      getCurrentUser = (\<lambda>_. Rejected TypeError)\<rparr>"

text \<open>\<open>error.response?.data?.detail\<close>.\<close>

fun detail_of :: "js_exception \<Rightarrow> js_value" where
  "detail_of RangeError = JUndefined"
| "detail_of TypeError = JUndefined"
| "detail_of (AxiosError d) = d"

text \<open>The truthiness of what \<open>localStorage.getItem\<close> returns: a string, or \<open>null\<close> (here \<open>None\<close>).\<close>

definition truthy :: "string option \<Rightarrow> bool" where
  "truthy v = (case v of None \<Rightarrow> False | Some s \<Rightarrow> s \<noteq> [])"

section \<open>The Register component\<close>

record register_result =
  success :: bool
  message :: js_value

record register_state =
  username :: string
  password :: string
  loading :: bool
  result :: "register_result option"

text \<open>The \<open>catch\<close> block and the success branch of \<open>handleSubmit\<close>, each followed by \<open>finally\<close>.\<close>

definition failed :: "js_exception \<Rightarrow> register_state \<Rightarrow> register_state" where
  "failed e st =
     st\<lparr>result := Some \<lparr>success = False,
                         message = js_or (detail_of e)
                                     (JString ''Registration failed. Please try again.'')\<rparr>,
        loading := False\<rparr>"

definition succeeded :: "register_state \<Rightarrow> register_state" where
  "succeeded st =
     st\<lparr>result := Some \<lparr>success = True, message = JString ''Registration successful!''\<rparr>,
        loading := False\<rparr>"

text \<open>
  What React shows for \<open>{result.message}\<close>: a string or a number as its text, nothing for a
  boolean, \<open>null\<close> or \<open>undefined\<close>, the elements of an array one after the other; an object
  is not a valid child and makes the render throw (\<open>None\<close>).
\<close>

fun rendered :: "js_value \<Rightarrow> string option" where
  "rendered JUndefined = Some []"
| "rendered JNull = Some []"
| "rendered (JBool _) = Some []"
| "rendered (JNumber s) = Some s"
| "rendered (JString s) = Some s"
| "rendered (JArray vs) = map_option concat (those (map rendered vs))"
| "rendered (JObject _) = None"

text \<open>
  One run of \<open>handleSubmit\<close> against given services, in an engine whose strings have at most
  \<open>limit\<close> characters: the component state it leaves, the API calls it made, and whether the
  handler came to its end (\<open>settled\<close> is false when the solver never returns, and the state
  then stays as it was set before the search).
\<close>

record run =
  final :: register_state
  requests :: "api_call list"
  settled :: bool

definition handleSubmit :: "nat \<Rightarrow> services \<Rightarrow> register_state \<Rightarrow> run" where
  "handleSubmit limit api st =
     (let st1 = st\<lparr>loading := True, result := None\<rparr> in
      case getChallenge api of
        Rejected e \<Rightarrow> \<lparr>final = failed e st1, requests = [GetChallenge], settled = True\<rparr>
      | Resolved cd \<Rightarrow>
          (case calculateProofOfWork limit (challenge cd) (difficulty cd) of
             None \<Rightarrow> \<lparr>final = st1, requests = [GetChallenge], settled = False\<rparr>
           | Some (Inl e) \<Rightarrow> \<lparr>final = failed e st1, requests = [GetChallenge], settled = True\<rparr>
           | Some (Inr p) \<Rightarrow>
               (let userData = UserData (username st) (password st) (nonce p) (hash p) False in
                case registerUser api userData (token cd) of
                  Resolved _ \<Rightarrow>
                    \<lparr>final = succeeded st1,
                     requests = [GetChallenge, RegisterUser userData (token cd)], settled = True\<rparr>
                | Rejected e \<Rightarrow>
                    \<lparr>final = failed e st1,
                     requests = [GetChallenge, RegisterUser userData (token cd)], settled = True\<rparr>)))"

subsection \<open>The component as an event-driven machine\<close>

text \<open>
  Between two \<open>await\<close>s the handler is suspended and the page reacts to other events. A
  suspended handler is a \<open>pending\<close> continuation; it keeps the \<open>username\<close> and \<open>password\<close> of
  the render in which it was started. The submit button is rendered with
  \<open>disabled={loading}\<close>: a submit trigger on a disabled button does not reach \<open>handleSubmit\<close>.
\<close>

datatype pending =
    AwaitChallenge string string
  | AwaitPow string string challenge_data
  | AwaitRegister

record page =
  view :: register_state
  inflight :: "pending list"
  log :: "api_call list"

datatype event =
    Click
  | TypeUsername string
  | TypePassword string
  | ChallengeArrives nat "challenge_data outcome"
  | PowReturns nat
  | RegisterArrives nat "unit outcome"

definition handleSubmit_begin :: "page \<Rightarrow> page" where
  "handleSubmit_begin pg =
     pg\<lparr>view := (view pg)\<lparr>loading := True, result := None\<rparr>,
        inflight := inflight pg @ [AwaitChallenge (username (view pg)) (password (view pg))],
        log := log pg @ [GetChallenge]\<rparr>"

definition button_disabled :: "page \<Rightarrow> bool" where
  "button_disabled pg = loading (view pg)"

definition drop_at :: "nat \<Rightarrow> 'a list \<Rightarrow> 'a list" where
  "drop_at i xs = take i xs @ drop (Suc i) xs"

definition finish :: "nat \<Rightarrow> register_state \<Rightarrow> page \<Rightarrow> page" where
  "finish i st pg = pg\<lparr>view := st, inflight := drop_at i (inflight pg)\<rparr>"

fun resume :: "nat \<Rightarrow> nat \<Rightarrow> pending \<Rightarrow> event \<Rightarrow> page \<Rightarrow> page" where
  "resume limit i (AwaitChallenge u p) (ChallengeArrives _ (Rejected e)) pg =
     finish i (failed e (view pg)) pg"
| "resume limit i (AwaitChallenge u p) (ChallengeArrives _ (Resolved cd)) pg =
     pg\<lparr>inflight := (inflight pg)[i := AwaitPow u p cd]\<rparr>"
| "resume limit i (AwaitPow u p cd) (PowReturns _) pg =
     (case calculateProofOfWork limit (challenge cd) (difficulty cd) of
        None \<Rightarrow> pg
      | Some (Inl e) \<Rightarrow> finish i (failed e (view pg)) pg
      | Some (Inr w) \<Rightarrow>
          pg\<lparr>inflight := (inflight pg)[i := AwaitRegister],
             log := log pg @ [RegisterUser (UserData u p (nonce w) (hash w) False) (token cd)]\<rparr>)"
| "resume limit i AwaitRegister (RegisterArrives _ (Resolved _)) pg =
     finish i (succeeded (view pg)) pg"
| "resume limit i AwaitRegister (RegisterArrives _ (Rejected e)) pg =
     finish i (failed e (view pg)) pg"
| "resume limit i _ _ pg = pg"

fun target_of :: "event \<Rightarrow> nat option" where
  "target_of (ChallengeArrives i _) = Some i"
| "target_of (PowReturns i) = Some i"
| "target_of (RegisterArrives i _) = Some i"
| "target_of _ = None"

definition react :: "nat \<Rightarrow> event \<Rightarrow> page \<Rightarrow> page" where
  "react limit ev pg =
     (case ev of
        Click \<Rightarrow> if button_disabled pg then pg else handleSubmit_begin pg
      | TypeUsername s \<Rightarrow> pg\<lparr>view := (view pg)\<lparr>username := s\<rparr>\<rparr>
      | TypePassword s \<Rightarrow> pg\<lparr>view := (view pg)\<lparr>password := s\<rparr>\<rparr>
      | _ \<Rightarrow> (case target_of ev of
                None \<Rightarrow> pg
              | Some i \<Rightarrow>
                  if i < length (inflight pg) then resume limit i (inflight pg ! i) ev pg else pg))"

definition initial_page :: page where
  "initial_page =
     \<lparr>view = \<lparr>username = [], password = [], loading = False, result = None\<rparr>,
      inflight = [], log = []\<rparr>"

definition run_events :: "nat \<Rightarrow> event list \<Rightarrow> page \<Rightarrow> page" where
  "run_events limit evs pg = foldl (\<lambda>p ev. react limit ev p) pg evs"

text \<open>
  The events of one uninterrupted run of \<open>handleSubmit\<close> against given services, the form
  being in state \<open>st\<close> when the button is clicked.
\<close>

definition script :: "nat \<Rightarrow> services \<Rightarrow> register_state \<Rightarrow> event list" where
  "script limit api st =
     Click # ChallengeArrives 0 (getChallenge api) # PowReturns 0 #
     (case getChallenge api of
        Rejected e \<Rightarrow> []
      | Resolved cd \<Rightarrow>
          (case calculateProofOfWork limit (challenge cd) (difficulty cd) of
             Some (Inr p) \<Rightarrow>
               [RegisterArrives 0
                  (registerUser api (UserData (username st) (password st) (nonce p) (hash p) False)
                     (token cd))]
           | _ \<Rightarrow> []))"

text \<open>The invariant of the guard: at most one handler in flight, and \<open>loading\<close> tells whether one is.\<close>

definition guard_inv :: "page \<Rightarrow> bool" where
  "guard_inv pg = (length (inflight pg) \<le> 1 \<and> loading (view pg) = (inflight pg \<noteq> []))"

section \<open>The Login and App components\<close>

record login_state =
  login_username :: string
  login_password :: string
  error :: string

record app_state =
  isLoggedIn :: bool
  showRegister :: bool
  userData :: "profile option"
  app_loading :: bool

text \<open>
  What the handlers of App and Login read and write: the state of App, \<open>localStorage\<close>, and
  the API calls made so far. The state \<open>loading\<close> of App is the field \<open>app_loading\<close>; the
  states \<open>username\<close> and \<open>password\<close> of Login are \<open>login_username\<close> and \<open>login_password\<close>.
\<close>

record world =
  app :: app_state
  localStorage :: storage
  api_log :: "api_call list"

definition initial_app :: app_state where
  "initial_app = \<lparr>isLoggedIn = False, showRegister = False, userData = None, app_loading = True\<rparr>"

definition checkAuth :: "services \<Rightarrow> world \<Rightarrow> world" where
  "checkAuth api w =
     (if truthy (localStorage w ''authToken'') then
        (case getCurrentUser api (localStorage w) of
           Resolved data \<Rightarrow>
             w\<lparr>app := (app w)\<lparr>userData := Some data, isLoggedIn := True, app_loading := False\<rparr>,
               api_log := api_log w @ [GetCurrentUser]\<rparr>
         | Rejected e \<Rightarrow>
             w\<lparr>localStorage := (localStorage w)(''authToken'' := None),
               app := (app w)\<lparr>app_loading := False\<rparr>,
               api_log := api_log w @ [GetCurrentUser]\<rparr>)
      else w\<lparr>app := (app w)\<lparr>app_loading := False\<rparr>\<rparr>)"

definition handleLogin :: "services \<Rightarrow> world \<Rightarrow> world" where
  "handleLogin api w =
     (case getCurrentUser api (localStorage w) of
        Resolved data \<Rightarrow>
          w\<lparr>app := (app w)\<lparr>userData := Some data, isLoggedIn := True\<rparr>,
            api_log := api_log w @ [GetCurrentUser]\<rparr>
      | Rejected e \<Rightarrow> w\<lparr>api_log := api_log w @ [GetCurrentUser]\<rparr>)"

definition handleLogout :: "world \<Rightarrow> world" where
  "handleLogout w =
     w\<lparr>localStorage := (localStorage w)(''authToken'' := None),
       app := (app w)\<lparr>isLoggedIn := False, userData := None\<rparr>\<rparr>"

text \<open>
  \<open>handleSubmit\<close> of Login; \<open>onLoginSuccess\<close> is the optional callback property. App renders
  Login with \<open>handleLogin\<close> as that callback. When building the error text throws, inside
  \<open>catch\<close>, \<open>setError\<close> is not reached.
\<close>

definition Login_handleSubmit ::
  "nat \<Rightarrow> services \<Rightarrow> (world \<Rightarrow> world) option \<Rightarrow> login_state \<times> world
     \<Rightarrow> login_state \<times> world" where
  "Login_handleSubmit limit api onLoginSuccess lw =
     (case lw of (lf, w) \<Rightarrow>
        (let lf1 = lf\<lparr>error := []\<rparr>;
             w1 = w\<lparr>api_log := api_log w @ [LoginUser (login_username lf) (login_password lf)]\<rparr>
         in case loginUser api (login_username lf) (login_password lf) of
              Resolved access_token \<Rightarrow>
                (let w2 = w1\<lparr>localStorage := (localStorage w1)(''authToken'' \<mapsto> access_token)\<rparr>
                 in (lf1, case onLoginSuccess of None \<Rightarrow> w2 | Some f \<Rightarrow> f w2))
            | Rejected e \<Rightarrow>
                (case js_concat limit ''Login failed: ''
                        (ToString (js_or (detail_of e) (JString ''Unknown error''))) of
                   Inl _ \<Rightarrow> (lf1, w1)
                 | Inr text \<Rightarrow> (lf1\<lparr>error := text\<rparr>, w1))))"

definition login :: "nat \<Rightarrow> services \<Rightarrow> login_state \<times> world \<Rightarrow> login_state \<times> world" where
  "login limit api lw = Login_handleSubmit limit api (Some (handleLogin api)) lw"

definition restore :: "services \<Rightarrow> storage \<Rightarrow> world" where
  "restore api ls = checkAuth api \<lparr>app = initial_app, localStorage = ls, api_log = []\<rparr>"

section \<open>The properties as the specification words them\<close>

text \<open>The digest's leading \<open>d\<close> hex characters are all \<open>0\<close>.\<close>

definition leading_zero_chars :: "string \<Rightarrow> nat \<Rightarrow> bool" where
  "leading_zero_chars h d = (d \<le> length h \<and> (\<forall>i<d. h ! i = CHR ''0''))"

text \<open>Lower-case hex encoding of a byte sequence, two digits per byte, no separators.\<close>

definition hex_digits :: string where
  "hex_digits = ''0123456789abcdef''"

definition lower_hex :: "nat list \<Rightarrow> string" where
  "lower_hex bs = concat (map (\<lambda>b. [hex_digits ! (b div 16), hex_digits ! (b mod 16)]) bs)"

text \<open>
  The decimal string form of a number: the digits that denote it, with no leading \<open>0\<close> but for
  the number 0 itself. \<open>decimal_value\<close> is the number that a string of decimal digits denotes.
\<close>

definition decimal_value :: "string \<Rightarrow> nat" where
  "decimal_value s = foldl (\<lambda>a c. 10 * a + (of_char c - 48)) 0 s"

definition is_decimal_form :: "string \<Rightarrow> nat \<Rightarrow> bool" where
  "is_decimal_form s n =
     (s \<noteq> [] \<and> set s \<subseteq> set ''0123456789'' \<and> decimal_value s = n
      \<and> (hd s = CHR ''0'' \<longrightarrow> s = ''0''))"

text \<open>The challenge leaves room, below the limit, for the digits of every nonce up to \<open>2 ^ 53\<close>.\<close>

definition room_for_nonce :: "nat \<Rightarrow> string \<Rightarrow> bool" where
  "room_for_nonce limit c = (utf16_length c + 16 \<le> limit)"

section \<open>Concrete services and states for the scenarios\<close>

text \<open>
  \<open>v8_limit\<close> is the maximal length of a string in V8, \<open>2 ^ 29 - 24\<close>. \<open>network_down\<close>,
  \<open>challenge_refused\<close>, \<open>detail_true\<close> and \<open>friendly\<close> are the exported API object against
  four servers; \<open>profile_denied\<close> is an API object with a \<open>getCurrentUser\<close> whose request the
  Session Service refuses.
\<close>

definition v8_limit :: nat where
  "v8_limit = 536870888"

definition ap_challenge :: challenge_data where
  "ap_challenge = \<lparr>challenge = ''ap'', difficulty = 2, token = ''t0''\<rparr>"

definition network_down :: services where
  "network_down =
     api_js (Rejected (AxiosError JUndefined)) (\<lambda>_ _. Rejected (AxiosError JUndefined))"

definition challenge_refused :: services where
  "challenge_refused =
     api_js (Rejected (AxiosError (JString ''Too many requests'')))
       (\<lambda>_ _. Rejected (AxiosError JUndefined))"

definition detail_true :: services where
  "detail_true =
     api_js (Rejected (AxiosError (JBool True))) (\<lambda>_ _. Rejected (AxiosError JUndefined))"

definition friendly :: services where
  "friendly = api_js (Resolved ap_challenge) (\<lambda>_ _. Resolved ())"

definition profile_denied :: services where
  "profile_denied =
     \<lparr>getChallenge = Resolved ap_challenge,
      registerUser = (\<lambda>_ _. Resolved ()),
      loginUser = (\<lambda>_ _. Rejected TypeError),
      getCurrentUser = (\<lambda>_. Rejected (AxiosError (JString ''Could not validate credentials'')))\<rparr>"

definition alice_form :: register_state where
  "alice_form = \<lparr>username = ''alice'', password = ''pw'', loading = False, result = None\<rparr>"

definition alice_login :: login_state where
  "alice_login = \<lparr>login_username = ''alice'', login_password = ''pw'', error = []\<rparr>"

definition no_token :: storage where
  "no_token = Map.empty"

definition stale_token :: storage where
  "stale_token = [''authToken'' \<mapsto> ''stale'']"

definition login_page :: world where
  "login_page = \<lparr>app = initial_app\<lparr>app_loading := False\<rparr>, localStorage = no_token, api_log = []\<rparr>"

definition logged_in :: world where
  "logged_in =
     \<lparr>app = \<lparr>isLoggedIn = True, showRegister = False, userData = Some (Profile ''alice''),
              app_loading = False\<rparr>,
      localStorage = [''authToken'' \<mapsto> ''tok''], api_log = []\<rparr>"

definition until_submitting :: "event list" where
  "until_submitting =
     [TypeUsername ''alice'', TypePassword ''pw'', Click, Click,
      ChallengeArrives 0 (Resolved ap_challenge), Click, PowReturns 0]"

section \<open>Facts about the JavaScript primitives and the digest\<close>

lemma length_digest_bytes: "length (digest_bytes s) = 32"
  by (induction s rule: digest_bytes.induct) (simp add: be32_def)

lemma digest_bytes_lt: "b \<in> set (digest_bytes s) \<Longrightarrow> b < 256"
  by (induction s rule: digest_bytes.induct) (auto simp add: be32_def)

lemma length_sha256: "length (sha256 m) = 32"
  by (simp add: sha256_def length_digest_bytes)

lemma sha256_bytes: "b \<in> set (sha256 m) \<Longrightarrow> b < 256"
  by (simp add: sha256_def digest_bytes_lt)

lemma digit_char_hex: "k < 16 \<Longrightarrow> digit_char k = hex_digits ! k"
  using nth_append [of "''0123456789abcdef''" "''ghijklmnopqrstuvwxyz''" k]
  by (simp add: digit_char_def hex_digits_def)

lemma hex_digit_mem: "k < 16 \<Longrightarrow> hex_digits ! k \<in> set hex_digits"
  by (rule nth_mem) (simp add: hex_digits_def)

lemma digit_char_decimal: "k < 10 \<Longrightarrow> digit_char k = ''0123456789'' ! k"
  using nth_append [of "''0123456789''" "''abcdefghijklmnopqrstuvwxyz''" k]
  by (simp add: digit_char_def)

lemma hex_byte:
  assumes "b < 256"
  shows "padStart 2 CHR ''0'' (toString_radix 16 b) = [digit_char (b div 16), digit_char (b mod 16)]"
proof (cases "b < 16")
  case True
  then show ?thesis
    by (simp add: padStart_def digit_char_def toString_radix.simps [of 16 b])
next
  case False
  from assms have "b div 16 < 16" by simp
  with False show ?thesis
    by (simp add: padStart_def toString_radix.simps [of 16 b] toString_radix.simps [of 16 "b div 16"])
qed

lemma hex_join_lower_hex: "\<forall>b\<in>set bs. b < 256 \<Longrightarrow> hex_join bs = lower_hex bs"
proof (induction bs)
  case Nil
  show ?case by (simp add: hex_join_def lower_hex_def)
next
  case (Cons b bs)
  then have b: "b < 256" and rest: "hex_join bs = lower_hex bs" by simp_all
  from b have "b div 16 < 16" "b mod 16 < 16" by simp_all
  then have "padStart 2 CHR ''0'' (toString_radix 16 b) =
      [hex_digits ! (b div 16), hex_digits ! (b mod 16)]"
    using hex_byte [OF b] by (simp only: digit_char_hex)
  with rest show ?case by (simp add: hex_join_def lower_hex_def)
qed

lemma length_lower_hex: "length (lower_hex bs) = 2 * length bs"
  by (induction bs) (simp_all add: lower_hex_def)

lemma set_lower_hex:
  assumes "\<forall>b\<in>set bs. b < 256"
  shows "set (lower_hex bs) \<subseteq> set hex_digits"
proof
  fix x
  assume "x \<in> set (lower_hex bs)"
  then obtain b where b: "b \<in> set bs" and x: "x = hex_digits ! (b div 16) \<or> x = hex_digits ! (b mod 16)"
    by (auto simp add: lower_hex_def)
  from b assms have "b div 16 < 16" "b mod 16 < 16" by (simp_all add: less_mult_imp_div_less)
  with x show "x \<in> set hex_digits" by (auto intro: hex_digit_mem)
qed

lemma attempt_hash_lower_hex:
  "attempt_hash c n = lower_hex (sha256 (TextEncoder_encode (c @ toString n)))"
  by (simp add: attempt_hash_def hash_of_def hex_join_lower_hex sha256_bytes)

lemma length_attempt_hash: "length (attempt_hash c n) = 64"
  by (simp add: attempt_hash_lower_hex length_lower_hex length_sha256)

lemma set_attempt_hash: "set (attempt_hash c n) \<subseteq> set hex_digits"
  unfolding attempt_hash_lower_hex by (rule set_lower_hex) (simp add: sha256_bytes)

lemma startsWith_zeros: "startsWith h (replicate d CHR ''0'') = leading_zero_chars h d"
  by (auto simp add: startsWith_def leading_zero_chars_def list_eq_iff_nth_eq)

lemma too_many_zeros: "64 < d \<Longrightarrow> \<not> leading_zero_chars (attempt_hash c n) d"
  by (simp add: leading_zero_chars_def length_attempt_hash)

lemma concat_replicate_single: "concat (replicate k [c]) = replicate k c"
  by (induction k) simp_all

lemma utf16_length_ascii: "\<forall>c\<in>set s. (of_char c :: nat) < 128 \<Longrightarrow> utf16_length s = length s"
  by (induction s) (simp_all add: utf16_length_def)

lemma repeat_zero:
  "0 \<le> D \<Longrightarrow> nat D \<le> L \<Longrightarrow> repeat L ''0'' D = Inr (replicate (nat D) CHR ''0'')"
  by (simp add: repeat_def concat_replicate_single utf16_length_def)

lemma repeat_too_long: "L < nat D \<Longrightarrow> repeat L ''0'' D = Inl RangeError"
  by (simp add: repeat_def utf16_length_def)

lemma decimal_value_snoc: "decimal_value (s @ [c]) = 10 * decimal_value s + (of_char c - 48)"
  by (simp add: decimal_value_def)

lemma decimal_digit:
  assumes "k < 10"
  shows "of_char (digit_char k) = 48 + k" and "digit_char k \<in> set ''0123456789''"
proof -
  from assms have "k = 0 \<or> k = 1 \<or> k = 2 \<or> k = 3 \<or> k = 4 \<or> k = 5 \<or> k = 6 \<or> k = 7 \<or> k = 8 \<or> k = 9"
    by arith
  then show "of_char (digit_char k) = 48 + k" and "digit_char k \<in> set ''0123456789''"
    by (auto simp add: digit_char_def)
qed

lemma decimal_value_toString: "decimal_value (toString_radix 10 n) = n"
proof (induction "10 :: nat" n rule: toString_radix.induct)
  case (1 n)
  show ?case
  proof (cases "n < 10")
    case True
    then show ?thesis
      by (simp add: toString_radix.simps [of 10 n] decimal_value_def decimal_digit(1))
  next
    case False
    with 1 have "decimal_value (toString_radix 10 (n div 10)) = n div 10" by simp
    with False show ?thesis
      by (simp add: toString_radix.simps [of 10 n] decimal_value_snoc decimal_digit(1))
  qed
qed

lemma toString_leading_digit:
  "toString_radix 10 n \<noteq> [] \<and> (0 < n \<longrightarrow> hd (toString_radix 10 n) \<noteq> CHR ''0'')"
proof (induction "10 :: nat" n rule: toString_radix.induct)
  case (1 n)
  show ?case
  proof (cases "n < 10")
    case True
    have "digit_char n \<noteq> CHR ''0''" if "0 < n"
    proof
      assume "digit_char n = CHR ''0''"
      then have "(of_char (digit_char n) :: nat) = 48" by simp
      with decimal_digit(1) [OF True] that show False by simp
    qed
    with True show ?thesis
      by (simp add: toString_radix.simps [of 10 n])
  next
    case False
    with 1 have "toString_radix 10 (n div 10) \<noteq> []"
      and "0 < n div 10 \<longrightarrow> hd (toString_radix 10 (n div 10)) \<noteq> CHR ''0''" by simp_all
    moreover from False have "0 < n div 10" by simp
    ultimately show ?thesis
      using False by (simp add: toString_radix.simps [of 10 n])
  qed
qed

lemma set_toString: "set (toString_radix 10 n) \<subseteq> set ''0123456789''"
proof (induction "10 :: nat" n rule: toString_radix.induct)
  case (1 n)
  show ?case
  proof (cases "n < 10")
    case True
    then show ?thesis
      using decimal_digit(2) [of n] by (simp add: toString_radix.simps [of 10 n])
  next
    case False
    with 1 have "set (toString_radix 10 (n div 10)) \<subseteq> set ''0123456789''" by simp
    with False show ?thesis
      using decimal_digit(2) [of "n mod 10"] by (simp add: toString_radix.simps [of 10 n])
  qed
qed

section \<open>The search loop\<close>

lemma length_toString_radix: "n < 10 ^ k \<Longrightarrow> 0 < k \<Longrightarrow> length (toString_radix 10 n) \<le> k"
proof (induction k arbitrary: n)
  case 0
  then show ?case by simp
next
  case (Suc k)
  show ?case
  proof (cases "n < 10")
    case True
    then show ?thesis by (simp add: toString_radix.simps [of 10 n])
  next
    case False
    have pos: "0 < k"
    proof (rule ccontr)
      assume "\<not> 0 < k"
      then have "k = 0" by simp
      with Suc.prems(1) False show False by simp
    qed
    from Suc.prems(1) have "n < 10 ^ k * 10" by simp
    then have "n div 10 < 10 ^ k" by (rule less_mult_imp_div_less)
    then have "length (toString_radix 10 (n div 10)) \<le> k" using pos by (rule Suc.IH)
    with False show ?thesis by (simp add: toString_radix.simps [of 10 n])
  qed
qed

lemma digit_is_ascii: "c \<in> set ''0123456789'' \<Longrightarrow> (of_char c :: nat) < 128"
  by auto

lemma utf16_length_toString: "utf16_length (toString n) = length (toString n)"
proof (rule utf16_length_ascii, rule ballI)
  fix c
  assume "c \<in> set (toString n)"
  with set_toString [of n] have "c \<in> set ''0123456789''" unfolding toString_def by (rule subsetD)
  then show "(of_char c :: nat) < 128" by (rule digit_is_ascii)
qed

lemma digits_of_nonce: "n \<le> MAX_EXACT \<Longrightarrow> utf16_length (toString n) \<le> 16"
proof -
  assume "n \<le> MAX_EXACT"
  then have "n < 10 ^ 16" by (simp add: MAX_EXACT_def)
  then have "length (toString_radix 10 n) \<le> 16" by (rule length_toString_radix) simp
  then have "length (toString n) \<le> 16" by (simp only: toString_def)
  then show ?thesis by (simp only: utf16_length_toString)
qed

lemma dataString_fits:
  "room_for_nonce L c \<Longrightarrow> n \<le> MAX_EXACT \<Longrightarrow> dataString L c n = Inr (c @ toString n)"
  using digits_of_nonce [of n] by (simp add: dataString_def js_concat_def room_for_nonce_def)

lemma loop_fitting:
  "utf16_length c + utf16_length (toString n) \<le> L \<Longrightarrow>
   calculateProofOfWork_loop L c t n =
     (if startsWith (attempt_hash c n) t
      then Some (Inr \<lparr>nonce = toString n, hash = attempt_hash c n\<rparr>)
      else calculateProofOfWork_loop L c t (js_increment n))"
  by (subst calculateProofOfWork_loop.simps)
     (simp add: dataString_def js_concat_def attempt_hash_def)

lemma loop_throws:
  "L < utf16_length c + utf16_length (toString n) \<Longrightarrow>
   calculateProofOfWork_loop L c t n = Some (Inl RangeError)"
  by (subst calculateProofOfWork_loop.simps) (simp add: dataString_def js_concat_def)

lemma loop_hit:
  "room_for_nonce L c \<Longrightarrow> n \<le> MAX_EXACT \<Longrightarrow> startsWith (attempt_hash c n) t \<Longrightarrow>
   calculateProofOfWork_loop L c t n = Some (Inr \<lparr>nonce = toString n, hash = attempt_hash c n\<rparr>)"
  using digits_of_nonce [of n] by (simp add: loop_fitting room_for_nonce_def)

lemma loop_miss:
  "room_for_nonce L c \<Longrightarrow> n \<le> MAX_EXACT \<Longrightarrow> \<not> startsWith (attempt_hash c n) t \<Longrightarrow>
   calculateProofOfWork_loop L c t n = calculateProofOfWork_loop L c t (js_increment n)"
  using digits_of_nonce [of n] by (simp add: loop_fitting room_for_nonce_def)

lemma loop_reaches:
  assumes "room_for_nonce L c"
    and "m \<le> MAX_EXACT" and "startsWith (attempt_hash c m) t"
    and "\<forall>k. n \<le> k \<and> k < m \<longrightarrow> \<not> startsWith (attempt_hash c k) t"
    and "n \<le> m"
  shows "calculateProofOfWork_loop L c t n = Some (Inr \<lparr>nonce = toString m, hash = attempt_hash c m\<rparr>)"
  using assms(2-)
proof (induction "m - n" arbitrary: n)
  case 0
  then have "n = m" by simp
  with "0.prems" assms(1) show ?case by (simp add: loop_hit)
next
  case (Suc d)
  then have lt: "n < m" by simp
  with Suc.prems have miss: "\<not> startsWith (attempt_hash c n) t" by simp
  from lt Suc.prems have le: "n \<le> MAX_EXACT" by simp
  from lt Suc.prems have inc: "js_increment n = Suc n" by (simp add: js_increment_def)
  have "calculateProofOfWork_loop L c t (Suc n) =
          Some (Inr \<lparr>nonce = toString m, hash = attempt_hash c m\<rparr>)"
    using Suc.hyps Suc.prems lt by (intro Suc.hyps(1)) auto
  with miss inc le assms(1) show ?case by (simp add: loop_miss)
qed

lemma loop_result:
  assumes "calculateProofOfWork_loop L c t n = Some (Inr p)"
  shows "\<exists>k. p = \<lparr>nonce = toString k, hash = attempt_hash c k\<rparr> \<and> startsWith (attempt_hash c k) t"
proof -
  let ?P = "\<lambda>(L::nat) c t (n::nat) (r::js_exception + pow). \<forall>p. r = Inr p \<longrightarrow>
              (\<exists>k. p = \<lparr>nonce = toString k, hash = attempt_hash c k\<rparr> \<and> startsWith (attempt_hash c k) t)"
  have "?P L c t n (Inr p)"
  proof (rule calculateProofOfWork_loop.raw_induct [where P = ?P, OF _ assms])
    fix f L c t n r
    assume IH: "\<And>L c t n r. f L c t n = Some r \<Longrightarrow> ?P L c t n r"
      and body: "(case dataString L c n of
                    Inl e \<Rightarrow> Some (Inl e)
                  | Inr msg \<Rightarrow>
                      if startsWith (hash_of msg) t
                      then Some (Inr \<lparr>nonce = toString n, hash = hash_of msg\<rparr>)
                      else f L c t (js_increment n)) = Some r"
    show "?P L c t n r"
    proof (cases "dataString L c n")
      case (Inl e)
      with body show ?thesis by auto
    next
      case (Inr msg)
      then have msg: "msg = c @ toString n"
        by (simp add: dataString_def js_concat_def split: if_splits)
      show ?thesis
      proof (cases "startsWith (hash_of msg) t")
        case True
        with body Inr msg show ?thesis by (auto simp add: attempt_hash_def)
      next
        case False
        with body Inr have "f L c t (js_increment n) = Some r" by simp
        then show ?thesis by (rule IH)
      qed
    qed
  qed
  then show ?thesis by simp
qed

lemma loop_Some_hit:
  assumes "calculateProofOfWork_loop L c t n = Some y" and "n \<le> MAX_EXACT"
    and "room_for_nonce L c"
  shows "\<exists>k. n \<le> k \<and> k \<le> MAX_EXACT \<and> startsWith (attempt_hash c k) t"
proof -
  let ?P = "\<lambda>L c t n (y::js_exception + pow). room_for_nonce L c \<longrightarrow> n \<le> MAX_EXACT \<longrightarrow>
              (\<exists>k. n \<le> k \<and> k \<le> MAX_EXACT \<and> startsWith (attempt_hash c k) t)"
  have "?P L c t n y"
  proof (rule calculateProofOfWork_loop.raw_induct [where P = ?P, OF _ assms(1)])
    fix f L c t n y
    assume IH: "\<And>L c t n y. f L c t n = Some y \<Longrightarrow> ?P L c t n y"
      and body: "(case dataString L c n of
                    Inl e \<Rightarrow> Some (Inl e)
                  | Inr msg \<Rightarrow>
                      if startsWith (hash_of msg) t
                      then Some (Inr \<lparr>nonce = toString n, hash = hash_of msg\<rparr>)
                      else f L c t (js_increment n)) = Some y"
    show "?P L c t n y"
    proof (intro impI)
      assume room: "room_for_nonce L c" and le: "n \<le> MAX_EXACT"
      then have fits: "dataString L c n = Inr (c @ toString n)" by (simp add: dataString_fits)
      show "\<exists>k. n \<le> k \<and> k \<le> MAX_EXACT \<and> startsWith (attempt_hash c k) t"
      proof (cases "startsWith (attempt_hash c n) t")
        case True
        with le show ?thesis by blast
      next
        case False
        with body fits have "f L c t (js_increment n) = Some y" by (simp add: attempt_hash_def)
        moreover from le have bounds: "js_increment n \<le> MAX_EXACT" "n \<le> js_increment n"
          by (simp_all add: js_increment_def)
        ultimately obtain k where "js_increment n \<le> k" "k \<le> MAX_EXACT" "startsWith (attempt_hash c k) t"
          using IH room by blast
        with bounds(2) show ?thesis by (meson le_trans)
      qed
    qed
  qed
  with assms(2,3) show ?thesis by simp
qed

lemma loop_diverges:
  assumes "\<forall>k. n \<le> k \<and> k \<le> MAX_EXACT \<longrightarrow> \<not> startsWith (attempt_hash c k) t"
    and "n \<le> MAX_EXACT" and "room_for_nonce L c"
  shows "calculateProofOfWork_loop L c t n = None"
proof (cases "calculateProofOfWork_loop L c t n")
  case None
  then show ?thesis .
next
  case (Some y)
  from loop_Some_hit [OF Some assms(2,3)] assms(1) show ?thesis by blast
qed

lemma solver_is_loop:
  "0 \<le> D \<Longrightarrow> nat D \<le> L \<Longrightarrow>
   calculateProofOfWork L C D = calculateProofOfWork_loop L C (replicate (nat D) CHR ''0'') 0"
  by (simp add: calculateProofOfWork_def repeat_zero)

lemma solver_too_long: "L < nat D \<Longrightarrow> calculateProofOfWork L C D = Some (Inl RangeError)"
  by (simp add: calculateProofOfWork_def repeat_too_long)

lemma solver_result:
  assumes "calculateProofOfWork L C D = Some (Inr p)"
  shows "\<exists>k. p = \<lparr>nonce = toString k, hash = attempt_hash C k\<rparr>"
proof -
  from assms obtain t where "calculateProofOfWork_loop L C t 0 = Some (Inr p)"
    by (auto simp add: calculateProofOfWork_def split: sum.splits)
  from loop_result [OF this] show ?thesis by blast
qed

lemma toString_is_decimal_form: "is_decimal_form (toString n) n"
proof -
  have "toString_radix 10 n = ''0''" if "hd (toString_radix 10 n) = CHR ''0''"
  proof -
    from that toString_leading_digit [of n] have "n = 0" by auto
    then show ?thesis by (simp add: toString_radix.simps [of 10 0] digit_char_def)
  qed
  then show ?thesis
    using toString_leading_digit [of n] set_toString [of n] decimal_value_toString [of n]
    unfolding is_decimal_form_def toString_def by blast
qed

section \<open>Evaluating the digest\<close>

text \<open>
  The digest of a concrete message is computed by rewriting with the definitions. The first
  value is the test vector of the standard for the message \<open>abc\<close>; the others are the hashes
  of the attempts used in the scenarios below.
\<close>

lemma replicate_numeral: "replicate (numeral k) x = x # replicate (pred_numeral k) x"
  by (simp add: numeral_eq_Suc)

lemma schedule_numeral:
  "schedule (numeral k) w =
     hd w # schedule (pred_numeral k)
       (tl w @ [add32 (add32 (add32 (sigma1 (w ! 14)) (w ! 9)) (sigma0 (w ! 1))) (w ! 0)])"
  by (simp add: numeral_eq_Suc)

lemmas sha_eval =
  replicate_numeral schedule_numeral sha256_def H256_def pad_def be64_def be32_def K256_def
  Sigma0_def Sigma1_def sigma0_def sigma1_def Ch_def Maj_def rotr_def add32_def Let_def
  blocks.simps compress.simps round.simps

lemmas js_eval =
  attempt_hash_def hash_of_def hex_join_def TextEncoder_encode_def toString_def
  padStart_def digit_char_def toString_radix.simps

lemma sha256_abc:
  "lower_hex (sha256 (TextEncoder_encode ''abc'')) =
   ''ba7816bf8f01cfea414140de5dae2223b00361a396177a9cb410ff61f20015ad''"
  by (simp add: sha_eval TextEncoder_encode_def lower_hex_def hex_digits_def)

lemma hash_ap_0:
  "attempt_hash ''ap'' 0 = ''2136333920ae1c3edd05af506447c1db2ac78374a55f9216cd697315f65bda7a''"
  by (simp add: sha_eval js_eval)

lemma hash_ap_1:
  "attempt_hash ''ap'' 1 = ''1b91b567dda606902bae2be187ee560d8fe3b76bab239601db2b76389d87f974''"
  by (simp add: sha_eval js_eval)

lemma hash_ap_2:
  "attempt_hash ''ap'' 2 = ''0093941bbafbfb82a51b3931cc032c38717a7e791f108fc5c2ce04979018ef65''"
  by (simp add: sha_eval js_eval)

lemma hash_abc123_17:
  "attempt_hash ''abc123'' 17 = ''0419759720a926ce720b064c835fcdbccae38d6405d760983ca943e773b73567''"
  by (simp add: sha_eval js_eval)

lemma leading_zero_chars_eval: "leading_zero_chars h d = startsWith h (replicate d CHR ''0'')"
  by (simp add: startsWith_zeros)

lemma room_ap: "room_for_nonce v8_limit ''ap''"
  by (simp add: room_for_nonce_def v8_limit_def utf16_length_def)

lemma room_abc123: "room_for_nonce v8_limit ''abc123''"
  by (simp add: room_for_nonce_def v8_limit_def utf16_length_def)

lemma solve_ap_2:
  "calculateProofOfWork v8_limit ''ap'' 2 =
     Some (Inr \<lparr>nonce = ''2'',
                hash = ''0093941bbafbfb82a51b3931cc032c38717a7e791f108fc5c2ce04979018ef65''\<rparr>)"
proof -
  let ?t = "replicate (nat 2) CHR ''0''"
  have miss0: "\<not> startsWith (attempt_hash ''ap'' 0) ?t"
    by (simp add: hash_ap_0 startsWith_def replicate_numeral)
  have miss1: "\<not> startsWith (attempt_hash ''ap'' 1) ?t"
    unfolding hash_ap_1 by (simp add: startsWith_def replicate_numeral)
  have hit2: "startsWith (attempt_hash ''ap'' 2) ?t"
    by (simp add: hash_ap_2 startsWith_def replicate_numeral)
  have inc: "js_increment 0 = 1" "js_increment 1 = 2"
    by (simp_all add: js_increment_def MAX_EXACT_def)
  have small: "0 \<le> MAX_EXACT" "1 \<le> MAX_EXACT" "2 \<le> MAX_EXACT"
    by (simp_all add: MAX_EXACT_def)
  have "calculateProofOfWork_loop v8_limit ''ap'' ?t 0 = calculateProofOfWork_loop v8_limit ''ap'' ?t 1"
    using loop_miss [OF room_ap small(1) miss0] unfolding inc .
  also have "\<dots> = calculateProofOfWork_loop v8_limit ''ap'' ?t 2"
    using loop_miss [OF room_ap small(2) miss1] unfolding inc .
  also have "\<dots> = Some (Inr \<lparr>nonce = toString 2, hash = attempt_hash ''ap'' 2\<rparr>)"
    by (rule loop_hit [OF room_ap small(3) hit2])
  finally show ?thesis
    by (simp add: solver_is_loop v8_limit_def hash_ap_2 toString_def toString_radix.simps
        digit_char_def)
qed

section \<open>The solver\<close>

text \<open>
  C1 (as amended). Take a difficulty \<open>D \<ge> 0\<close> that is not above the engine's limit on the
  length of a string, and a challenge that leaves room below that limit for the digits of a
  nonce. When some nonce up to \<open>2 ^ 53\<close> gives a digest with \<open>D\<close> leading \<open>0\<close> characters, the
  solver returns the smallest such nonce with its digest, and no smaller nonce satisfies the
  predicate; when there is none, as for every \<open>D\<close> above 64, the length of the digest, the
  solver never returns. For a difficulty above the limit, building the target throws a
  RangeError and the solver returns no solution; so does building the first message, for a
  challenge as long as the limit.
\<close>

theorem calculateProofOfWork_smallest_nonce:
  assumes "0 \<le> D"
  shows "(nat D \<le> L \<and> room_for_nonce L C \<longrightarrow>
            (if \<exists>n\<le>MAX_EXACT. leading_zero_chars (attempt_hash C n) (nat D)
             then \<exists>m\<le>MAX_EXACT.
                    calculateProofOfWork L C D =
                      Some (Inr \<lparr>nonce = toString m, hash = attempt_hash C m\<rparr>)
                    \<and> leading_zero_chars (attempt_hash C m) (nat D)
                    \<and> (\<forall>k<m. \<not> leading_zero_chars (attempt_hash C k) (nat D))
             else calculateProofOfWork L C D = None)
            \<and> (64 < D \<longrightarrow> calculateProofOfWork L C D = None))
         \<and> (L < nat D \<longrightarrow> calculateProofOfWork L C D = Some (Inl RangeError))
         \<and> (L \<le> utf16_length C \<longrightarrow> calculateProofOfWork L C D = Some (Inl RangeError))"
proof (intro conjI impI)
  assume "L < nat D"
  then show "calculateProofOfWork L C D = Some (Inl RangeError)" by (rule solver_too_long)
next
  assume long: "L \<le> utf16_length C"
  have one: "utf16_length (toString 0) = 1"
    by (simp add: utf16_length_toString) (simp add: toString_def toString_radix.simps)
  show "calculateProofOfWork L C D = Some (Inl RangeError)"
  proof (cases "L < nat D")
    case True
    then show ?thesis by (rule solver_too_long)
  next
    case False
    with assms have "calculateProofOfWork L C D =
        calculateProofOfWork_loop L C (replicate (nat D) CHR ''0'') 0"
      by (simp add: solver_is_loop)
    also from long one have "\<dots> = Some (Inl RangeError)" by (intro loop_throws) simp
    finally show ?thesis .
  qed
next
  let ?t = "replicate (nat D) CHR ''0''"
  let ?ok = "\<lambda>n. leading_zero_chars (attempt_hash C n) (nat D)"
  assume "nat D \<le> L \<and> room_for_nonce L C"
  then have fits: "nat D \<le> L" and room: "room_for_nonce L C" by simp_all
  have none: "calculateProofOfWork L C D = None" if "\<not> (\<exists>n\<le>MAX_EXACT. ?ok n)"
  proof -
    from that have "\<forall>k. 0 \<le> k \<and> k \<le> MAX_EXACT \<longrightarrow> \<not> startsWith (attempt_hash C k) ?t"
      by (simp add: startsWith_zeros)
    then have "calculateProofOfWork_loop L C ?t 0 = None"
      using room by (intro loop_diverges) simp_all
    with assms fits show ?thesis by (simp add: solver_is_loop)
  qed
  have some: "\<exists>m\<le>MAX_EXACT.
                 calculateProofOfWork L C D = Some (Inr \<lparr>nonce = toString m, hash = attempt_hash C m\<rparr>)
                 \<and> ?ok m \<and> (\<forall>k<m. \<not> ?ok k)" if "\<exists>n\<le>MAX_EXACT. ?ok n"
  proof -
    from that obtain n where n: "n \<le> MAX_EXACT" "?ok n" by blast
    define m where "m = (LEAST k. ?ok k)"
    have okm: "?ok m" unfolding m_def using n(2) by (rule LeastI)
    have least: "\<forall>k<m. \<not> ?ok k" unfolding m_def using not_less_Least by blast
    have "m \<le> n" unfolding m_def using n(2) by (rule Least_le)
    with n(1) have le: "m \<le> MAX_EXACT" by simp
    have "calculateProofOfWork_loop L C ?t 0 =
            Some (Inr \<lparr>nonce = toString m, hash = attempt_hash C m\<rparr>)"
      using room le okm least by (intro loop_reaches) (simp_all add: startsWith_zeros)
    with assms fits
    have "calculateProofOfWork L C D = Some (Inr \<lparr>nonce = toString m, hash = attempt_hash C m\<rparr>)"
      by (simp add: solver_is_loop)
    with le okm least show ?thesis by blast
  qed
  from none some
  show "if \<exists>n\<le>MAX_EXACT. ?ok n
        then \<exists>m\<le>MAX_EXACT.
               calculateProofOfWork L C D =
                 Some (Inr \<lparr>nonce = toString m, hash = attempt_hash C m\<rparr>)
               \<and> ?ok m \<and> (\<forall>k<m. \<not> ?ok k)
        else calculateProofOfWork L C D = None"
    by simp
  assume "64 < D"
  then have "64 < nat D" by simp
  then have "\<not> (\<exists>n\<le>MAX_EXACT. ?ok n)" by (simp add: too_many_zeros)
  then show "calculateProofOfWork L C D = None" by (rule none)
qed

theorem calculateProofOfWork_smallest_nonce_witness:
  "(0::int) \<le> 2 \<and> nat 2 \<le> v8_limit \<and> room_for_nonce v8_limit ''ap'' \<and>
   calculateProofOfWork v8_limit ''ap'' 2 =
     Some (Inr \<lparr>nonce = ''2'',
                hash = ''0093941bbafbfb82a51b3931cc032c38717a7e791f108fc5c2ce04979018ef65''\<rparr>)
   \<and> v8_limit < nat 1073741824
   \<and> calculateProofOfWork v8_limit ''abc123'' 1073741824 = Some (Inl RangeError)"
proof -
  let ?ok = "\<lambda>n. leading_zero_chars (attempt_hash ''ap'' n) (nat 2)"
  have ok2: "?ok 2"
    by (simp add: leading_zero_chars_eval hash_ap_2 startsWith_def replicate_numeral)
  have no0: "\<not> ?ok 0"
    by (simp add: leading_zero_chars_eval hash_ap_0 startsWith_def replicate_numeral)
  have no1: "\<not> ?ok 1"
    unfolding leading_zero_chars_eval hash_ap_1 by (simp add: startsWith_def replicate_numeral)
  have fits: "nat 2 \<le> v8_limit" by (simp add: v8_limit_def)
  have "\<exists>n\<le>MAX_EXACT. ?ok n"
    using ok2 by (intro exI [of _ 2]) (simp add: MAX_EXACT_def)
  with calculateProofOfWork_smallest_nonce [of 2 v8_limit "''ap''"] fits room_ap
  obtain m where m: "calculateProofOfWork v8_limit ''ap'' 2 =
        Some (Inr \<lparr>nonce = toString m, hash = attempt_hash ''ap'' m\<rparr>)"
      "?ok m" "\<forall>k<m. \<not> ?ok k"
    by auto
  from m(3) ok2 have "\<not> 2 < m" by blast
  moreover have "m \<noteq> 0"
  proof
    assume "m = 0"
    with m(2) no0 show False by simp
  qed
  moreover have "m \<noteq> 1"
  proof
    assume "m = 1"
    with m(2) no1 show False by simp
  qed
  ultimately have "m = 2" by arith
  with m(1) have solved: "calculateProofOfWork v8_limit ''ap'' 2 =
     Some (Inr \<lparr>nonce = ''2'',
                hash = ''0093941bbafbfb82a51b3931cc032c38717a7e791f108fc5c2ce04979018ef65''\<rparr>)"
    by (simp add: hash_ap_2 toString_def toString_radix.simps digit_char_def)
  have long: "v8_limit < nat 1073741824" by (simp add: v8_limit_def)
  with calculateProofOfWork_smallest_nonce [of 1073741824 v8_limit "''abc123''"]
  have "calculateProofOfWork v8_limit ''abc123'' 1073741824 = Some (Inl RangeError)" by simp
  with solved fits long room_ap show ?thesis by simp
qed

text \<open>
  C1 as stated fails: with difficulty 65 the target is longer than any digest, no nonce is
  accepted, and the solver never returns.
\<close>

theorem calculateProofOfWork_difficulty_65_never_returns:
  "calculateProofOfWork v8_limit ''abc123'' 65 = None"
proof -
  have "\<forall>k. 0 \<le> k \<and> k \<le> MAX_EXACT \<longrightarrow>
          \<not> startsWith (attempt_hash ''abc123'' k) (replicate (nat 65) CHR ''0'')"
    by (simp add: startsWith_def length_attempt_hash)
  then have "calculateProofOfWork_loop v8_limit ''abc123'' (replicate (nat 65) CHR ''0'') 0 = None"
    using room_abc123 by (intro loop_diverges) simp_all
  then show ?thesis by (simp add: solver_is_loop v8_limit_def)
qed

text \<open>
  C10. For a difficulty below 0 the solver returns no solution: building the target with
  \<open>'0'.repeat(difficulty)\<close> throws a RangeError, before the search starts.
\<close>

theorem calculateProofOfWork_negative_difficulty:
  "D < 0 \<Longrightarrow> calculateProofOfWork L C D = Some (Inl RangeError)"
  by (simp add: calculateProofOfWork_def repeat_def)

theorem calculateProofOfWork_negative_difficulty_witness:
  "(-1::int) < 0 \<and> calculateProofOfWork v8_limit ''abc123'' (-1) = Some (Inl RangeError)"
  using calculateProofOfWork_negative_difficulty [of "-1" v8_limit "''abc123''"] by simp

text \<open>
  C2. The message of an attempt is the challenge followed by the decimal string form of the
  nonce, with nothing between them (building it throws when it would be longer than the
  engine allows); the hash is the lower-case hex encoding of the SHA-256 digest of that
  message (64 characters out of \<open>0123456789abcdef\<close>); and the loop accepts a nonce exactly
  when the leading \<open>d\<close> characters of that hash are all \<open>0\<close>, \<open>d\<close> being the length of the
  target. The target has \<open>difficulty\<close> characters whenever the engine can build it.
\<close>

theorem attempt_is_sha256_hex_prefix_check:
  "dataString L C n =
     (if L < utf16_length C + utf16_length (toString n) then Inl RangeError
      else Inr (C @ toString n))
   \<and> is_decimal_form (toString n) n
   \<and> attempt_hash C n = lower_hex (sha256 (TextEncoder_encode (C @ toString n)))
   \<and> length (attempt_hash C n) = 64
   \<and> set (attempt_hash C n) \<subseteq> set hex_digits
   \<and> (utf16_length C + utf16_length (toString n) \<le> L \<longrightarrow>
        calculateProofOfWork_loop L C (replicate d CHR ''0'') n =
          (if leading_zero_chars (attempt_hash C n) d
           then Some (Inr \<lparr>nonce = toString n, hash = attempt_hash C n\<rparr>)
           else calculateProofOfWork_loop L C (replicate d CHR ''0'') (js_increment n)))
   \<and> (0 \<le> D \<and> nat D \<le> L \<longrightarrow>
        calculateProofOfWork L C D = calculateProofOfWork_loop L C (replicate (nat D) CHR ''0'') 0)"
proof -
  have unfold: "utf16_length C + utf16_length (toString n) \<le> L \<longrightarrow>
        calculateProofOfWork_loop L C (replicate d CHR ''0'') n =
          (if leading_zero_chars (attempt_hash C n) d
           then Some (Inr \<lparr>nonce = toString n, hash = attempt_hash C n\<rparr>)
           else calculateProofOfWork_loop L C (replicate d CHR ''0'') (js_increment n))"
    by (simp add: loop_fitting startsWith_zeros)
  have message: "dataString L C n =
     (if L < utf16_length C + utf16_length (toString n) then Inl RangeError
      else Inr (C @ toString n))"
    by (simp add: dataString_def js_concat_def)
  have target: "0 \<le> D \<and> nat D \<le> L \<longrightarrow>
        calculateProofOfWork L C D = calculateProofOfWork_loop L C (replicate (nat D) CHR ''0'') 0"
    using solver_is_loop by blast
  show ?thesis
    by (intro conjI message toString_is_decimal_form attempt_hash_lower_hex length_attempt_hash
        set_attempt_hash unfold target)
qed

theorem attempt_is_sha256_hex_prefix_check_witness:
  "dataString v8_limit ''abc123'' 17 = Inr ''abc12317''
   \<and> lower_hex (sha256 (TextEncoder_encode ''abc12317'')) =
     ''0419759720a926ce720b064c835fcdbccae38d6405d760983ca943e773b73567''
   \<and> is_decimal_form ''17'' 17
   \<and> leading_zero_chars (attempt_hash ''abc123'' 17) 1
   \<and> calculateProofOfWork_loop v8_limit ''abc123'' ''0'' 17 =
       Some (Inr \<lparr>nonce = ''17'',
             hash = ''0419759720a926ce720b064c835fcdbccae38d6405d760983ca943e773b73567''\<rparr>)
   \<and> (0::int) \<le> 1 \<and> nat 1 \<le> v8_limit
   \<and> calculateProofOfWork v8_limit ''abc123'' 1 =
       calculateProofOfWork_loop v8_limit ''abc123'' ''0'' 0"
proof -
  have s: "toString 17 = ''17''"
    by (simp add: toString_def toString_radix.simps digit_char_def)
  have z: "leading_zero_chars (attempt_hash ''abc123'' 17) 1"
    by (simp add: leading_zero_chars_eval hash_abc123_17 startsWith_def)
  have fits: "nat 1 \<le> v8_limit" by (simp add: v8_limit_def)
  have room: "utf16_length ''abc123'' + utf16_length ''17'' \<le> v8_limit"
    by (simp add: utf16_length_def v8_limit_def)
  from attempt_is_sha256_hex_prefix_check [of v8_limit "''abc123''" 17 1 1] z s fits room
  show ?thesis
    by (simp add: hash_abc123_17)
qed

section \<open>Properties of the Register component\<close>

text \<open>
  C4 (as amended). When fetching the challenge fails, the attempt ends in the failed state;
  the message is the detail of the server's answer when that detail is truthy, and the
  generic fallback otherwise; it is a non-empty string whenever the detail is a string or is
  absent or \<open>null\<close>. The only API call made is the one for the challenge: the Registration
  Service is not called and the challenge is not asked for again.
\<close>

theorem handleSubmit_challenge_failure:
  assumes "getChallenge api = Rejected e"
  shows "handleSubmit L api st =
           \<lparr>final = st\<lparr>loading := False,
                        result := Some \<lparr>success = False,
                          message = (case e of
                                       AxiosError d \<Rightarrow>
                                         if to_boolean d then d
                                         else JString ''Registration failed. Please try again.''
                                     | _ \<Rightarrow> JString ''Registration failed. Please try again.'')\<rparr>\<rparr>,
            requests = [GetChallenge], settled = True\<rparr>
         \<and> ((\<forall>d. e = AxiosError d \<longrightarrow> d = JUndefined \<or> d = JNull \<or> (\<exists>s. d = JString s)) \<longrightarrow>
              (\<exists>m. result (final (handleSubmit L api st)) = Some \<lparr>success = False, message = JString m\<rparr>
                   \<and> m \<noteq> [] \<and> rendered (JString m) = Some m))"
proof -
  have run: "handleSubmit L api st =
           \<lparr>final = st\<lparr>loading := False,
                        result := Some \<lparr>success = False,
                          message = (case e of
                                       AxiosError d \<Rightarrow>
                                         if to_boolean d then d
                                         else JString ''Registration failed. Please try again.''
                                     | _ \<Rightarrow> JString ''Registration failed. Please try again.'')\<rparr>\<rparr>,
            requests = [GetChallenge], settled = True\<rparr>"
    using assms by (cases e) (simp_all add: handleSubmit_def failed_def js_or_def)
  define M where "M = (case e of
                         AxiosError d \<Rightarrow>
                           if to_boolean d then d
                           else JString ''Registration failed. Please try again.''
                       | _ \<Rightarrow> JString ''Registration failed. Please try again.'')"
  have res: "result (final (handleSubmit L api st)) = Some \<lparr>success = False, message = M\<rparr>"
    unfolding run M_def by simp
  have "\<exists>m. M = JString m \<and> m \<noteq> []"
    if string: "\<forall>d. e = AxiosError d \<longrightarrow> d = JUndefined \<or> d = JNull \<or> (\<exists>s. d = JString s)"
  proof (cases e)
    case RangeError
    then show ?thesis by (simp add: M_def)
  next
    case TypeError
    then show ?thesis by (simp add: M_def)
  next
    case (AxiosError d)
    with string consider "d = JUndefined" | "d = JNull" | s where "d = JString s" by blast
    then show ?thesis
    proof cases
      case 1
      with AxiosError show ?thesis by (simp add: M_def)
    next
      case 2
      with AxiosError show ?thesis by (simp add: M_def)
    next
      case 3
      with AxiosError show ?thesis by (cases "s = []") (simp_all add: M_def)
    qed
  qed
  then have "\<exists>m. result (final (handleSubmit L api st)) = Some \<lparr>success = False, message = JString m\<rparr>
            \<and> m \<noteq> [] \<and> rendered (JString m) = Some m"
    if "\<forall>d. e = AxiosError d \<longrightarrow> d = JUndefined \<or> d = JNull \<or> (\<exists>s. d = JString s)"
    using that res by auto
  with run show ?thesis by blast
qed

theorem handleSubmit_challenge_failure_witness:
  "getChallenge challenge_refused = Rejected (AxiosError (JString ''Too many requests''))
   \<and> handleSubmit v8_limit challenge_refused alice_form =
     \<lparr>final = \<lparr>username = ''alice'', password = ''pw'', loading = False,
                result = Some \<lparr>success = False, message = JString ''Too many requests''\<rparr>\<rparr>,
      requests = [GetChallenge], settled = True\<rparr>
   \<and> getChallenge network_down = Rejected (AxiosError JUndefined)
   \<and> handleSubmit v8_limit network_down alice_form =
     \<lparr>final = \<lparr>username = ''alice'', password = ''pw'', loading = False,
                result = Some \<lparr>success = False,
                               message = JString ''Registration failed. Please try again.''\<rparr>\<rparr>,
      requests = [GetChallenge], settled = True\<rparr>"
  using handleSubmit_challenge_failure
      [of challenge_refused "AxiosError (JString ''Too many requests'')" v8_limit alice_form]
    handleSubmit_challenge_failure [of network_down "AxiosError JUndefined" v8_limit alice_form]
  by (simp add: challenge_refused_def network_down_def api_js_def alice_form_def)

text \<open>
  C4 as stated fails: when the challenge request is answered with an error whose detail is
  \<open>true\<close>, the message is that boolean, for which nothing is shown.
\<close>

theorem handleSubmit_challenge_failure_detail_true:
  "result (final (handleSubmit v8_limit detail_true alice_form)) =
     Some \<lparr>success = False, message = JBool True\<rparr>
   \<and> rendered (JBool True) = Some []"
  by (simp add: handleSubmit_def detail_true_def api_js_def failed_def js_or_def)

text \<open>
  C6. The hash that the solver returns is the hash recomputed from the challenge and the
  returned nonce, and the registration request carries exactly the returned nonce and hash.
\<close>

theorem solution_recomputes_and_is_submitted:
  assumes "getChallenge api = Resolved cd"
    and "calculateProofOfWork L (challenge cd) (difficulty cd) = Some (Inr p)"
  shows "hash p = lower_hex (sha256 (TextEncoder_encode (challenge cd @ nonce p)))
         \<and> hash p = hex_join (sha256 (TextEncoder_encode (challenge cd @ nonce p)))
         \<and> requests (handleSubmit L api st) =
             [GetChallenge,
              RegisterUser (UserData (username st) (password st) (nonce p) (hash p) False) (token cd)]"
proof -
  from solver_result [OF assms(2)] obtain k
    where p: "p = \<lparr>nonce = toString k, hash = attempt_hash (challenge cd) k\<rparr>" by blast
  then have "hash p = lower_hex (sha256 (TextEncoder_encode (challenge cd @ nonce p)))"
    by (simp add: attempt_hash_lower_hex)
  moreover from p have "hash p = hex_join (sha256 (TextEncoder_encode (challenge cd @ nonce p)))"
    by (simp add: attempt_hash_def hash_of_def)
  moreover from assms have "requests (handleSubmit L api st) =
      [GetChallenge,
       RegisterUser (UserData (username st) (password st) (nonce p) (hash p) False) (token cd)]"
    by (simp add: handleSubmit_def Let_def split: outcome.splits)
  ultimately show ?thesis by simp
qed

theorem solution_recomputes_and_is_submitted_witness:
  "lower_hex (sha256 (TextEncoder_encode ''ap2'')) =
     ''0093941bbafbfb82a51b3931cc032c38717a7e791f108fc5c2ce04979018ef65''
   \<and> requests (handleSubmit v8_limit friendly alice_form) =
       [GetChallenge,
        RegisterUser (UserData ''alice'' ''pw'' ''2''
          ''0093941bbafbfb82a51b3931cc032c38717a7e791f108fc5c2ce04979018ef65'' False) ''t0'']"
  using solution_recomputes_and_is_submitted
    [of friendly "\<lparr>challenge = ''ap'', difficulty = 2, token = ''t0''\<rparr>" v8_limit
        "\<lparr>nonce = ''2'', hash = ''0093941bbafbfb82a51b3931cc032c38717a7e791f108fc5c2ce04979018ef65''\<rparr>"
        alice_form]
    solve_ap_2
  by (simp add: friendly_def api_js_def ap_challenge_def alice_form_def)

text \<open>
  C7 (as amended). When the registration request succeeds, the attempt ends in the success
  state with the message of success and \<open>loading\<close> false; the entered username and password
  stay in the form.
\<close>

theorem handleSubmit_success_keeps_form:
  assumes "getChallenge api = Resolved cd"
    and "calculateProofOfWork L (challenge cd) (difficulty cd) = Some (Inr p)"
    and "registerUser api (UserData (username st) (password st) (nonce p) (hash p) False) (token cd)
           = Resolved ()"
  shows "final (handleSubmit L api st) =
           st\<lparr>loading := False,
              result := Some \<lparr>success = True, message = JString ''Registration successful!''\<rparr>\<rparr>
         \<and> settled (handleSubmit L api st)
         \<and> username (final (handleSubmit L api st)) = username st
         \<and> password (final (handleSubmit L api st)) = password st"
  using assms by (simp add: handleSubmit_def succeeded_def Let_def)

theorem handleSubmit_success_keeps_form_witness:
  "final (handleSubmit v8_limit friendly alice_form) =
     \<lparr>username = ''alice'', password = ''pw'', loading = False,
      result = Some \<lparr>success = True, message = JString ''Registration successful!''\<rparr>\<rparr>"
  using handleSubmit_success_keeps_form
    [of friendly "\<lparr>challenge = ''ap'', difficulty = 2, token = ''t0''\<rparr>" v8_limit
        "\<lparr>nonce = ''2'', hash = ''0093941bbafbfb82a51b3931cc032c38717a7e791f108fc5c2ce04979018ef65''\<rparr>"
        alice_form]
    solve_ap_2
  by (simp add: friendly_def api_js_def ap_challenge_def alice_form_def)

text \<open>
  C7 as stated fails: after a successful registration the form still holds the username
  and the password that were entered.
\<close>

theorem handleSubmit_success_does_not_clear_form:
  "result (final (handleSubmit v8_limit friendly alice_form)) =
     Some \<lparr>success = True, message = JString ''Registration successful!''\<rparr>
   \<and> username (final (handleSubmit v8_limit friendly alice_form)) = ''alice''
   \<and> password (final (handleSubmit v8_limit friendly alice_form)) = ''pw''"
  using solve_ap_2
  by (simp add: handleSubmit_def friendly_def api_js_def ap_challenge_def alice_form_def
      succeeded_def)

section \<open>The submit guard\<close>

text \<open>The event-driven machine, run without interruption, does what \<open>handleSubmit\<close> does.\<close>

lemma machine_agrees_with_handleSubmit:
  assumes "\<not> loading st"
  shows "view (run_events L (script L api st) \<lparr>view = st, inflight = [], log = []\<rparr>) = final (handleSubmit L api st)
       \<and> log (run_events L (script L api st) \<lparr>view = st, inflight = [], log = []\<rparr>) = requests (handleSubmit L api st)
       \<and> (inflight (run_events L (script L api st) \<lparr>view = st, inflight = [], log = []\<rparr>) = [])
           = settled (handleSubmit L api st)"
proof (cases "getChallenge api")
  case (Rejected e)
  with assms show ?thesis
    by (simp add: script_def run_events_def react_def button_disabled_def handleSubmit_begin_def
        handleSubmit_def finish_def drop_at_def failed_def)
next
  case (Resolved cd)
  show ?thesis
  proof (cases "calculateProofOfWork L (challenge cd) (difficulty cd)")
    case None
    with Resolved assms show ?thesis
      by (simp add: script_def run_events_def react_def button_disabled_def handleSubmit_begin_def
          handleSubmit_def)
  next
    case (Some r)
    show ?thesis
    proof (cases r)
      case (Inl e)
      with Some Resolved assms show ?thesis
        by (simp add: script_def run_events_def react_def button_disabled_def handleSubmit_begin_def
            handleSubmit_def finish_def drop_at_def failed_def)
    next
      case (Inr p)
      with Some Resolved assms show ?thesis
        by (cases "registerUser api (UserData (username st) (password st) (nonce p) (hash p) False) (token cd)")
           (simp_all add: script_def run_events_def react_def button_disabled_def handleSubmit_begin_def
            handleSubmit_def finish_def drop_at_def failed_def succeeded_def Let_def)
    qed
  qed
qed


lemma guard_inv_initial: "guard_inv initial_page"
  by (simp add: guard_inv_def initial_page_def)

lemma single_inflight:
  assumes "guard_inv pg" and "i < length (inflight pg)"
  shows "i = 0" and "inflight pg = [inflight pg ! 0]" and "loading (view pg)"
proof -
  from assms have len: "length (inflight pg) = 1" by (simp add: guard_inv_def)
  with assms(2) show "i = 0" by simp
  from len show "inflight pg = [inflight pg ! 0]"
    by (cases "inflight pg") simp_all
  from assms show "loading (view pg)" by (auto simp add: guard_inv_def)
qed

lemma resume_cases:
  assumes "inflight pg = [q]" and "loading (view pg)"
  shows "resume L 0 q ev pg = pg
       \<or> (\<exists>q'. resume L 0 q ev pg = pg\<lparr>inflight := [q']\<rparr>)
       \<or> (\<exists>q' l. resume L 0 q ev pg = pg\<lparr>inflight := [q'], log := l\<rparr>)
       \<or> (\<exists>e. resume L 0 q ev pg = pg\<lparr>view := failed e (view pg), inflight := []\<rparr>)
       \<or> resume L 0 q ev pg = pg\<lparr>view := succeeded (view pg), inflight := []\<rparr>"
  using assms
  by (cases "(L, 0::nat, q, ev, pg)" rule: resume.cases)
     (auto simp add: finish_def drop_at_def split: option.splits sum.splits)

lemma guard_inv_react:
  assumes "guard_inv pg"
  shows "guard_inv (react L ev pg)"
proof (cases "target_of ev")
  case None
  with assms show ?thesis
    by (cases ev) (auto simp add: react_def guard_inv_def button_disabled_def handleSubmit_begin_def)
next
  case (Some i)
  then have r: "react L ev pg = (if i < length (inflight pg) then resume L i (inflight pg ! i) ev pg else pg)"
    by (cases ev) (simp_all add: react_def)
  show ?thesis
  proof (cases "i < length (inflight pg)")
    case False
    with r assms show ?thesis by simp
  next
    case True
    note s = single_inflight [OF assms True]
    from resume_cases [OF s(2) s(3), where ev = ev and L = L] r True s(1) assms show ?thesis
      by (auto simp add: guard_inv_def failed_def succeeded_def)
  qed
qed

lemma run_events_snoc: "run_events L (evs @ [ev]) pg = react L ev (run_events L evs pg)"
  by (simp add: run_events_def)

lemma guard_inv_run: "guard_inv (run_events L evs initial_page)"
proof (induction evs rule: rev_induct)
  case Nil
  show ?case by (simp add: run_events_def guard_inv_initial)
next
  case (snoc ev evs)
  then show ?case by (simp add: run_events_snoc guard_inv_react)
qed

lemma release_only_at_end:
  assumes "guard_inv pg" and "loading (view pg)" and "\<not> loading (view (react L ev pg))"
  shows "result (view (react L ev pg)) \<noteq> None \<and> inflight (react L ev pg) = []"
proof (cases "target_of ev")
  case None
  with assms show ?thesis
    by (cases ev) (auto simp add: react_def button_disabled_def)
next
  case (Some i)
  then have r: "react L ev pg = (if i < length (inflight pg) then resume L i (inflight pg ! i) ev pg else pg)"
    by (cases ev) (simp_all add: react_def)
  show ?thesis
  proof (cases "i < length (inflight pg)")
    case False
    with r assms show ?thesis by simp
  next
    case True
    note s = single_inflight [OF assms(1) True]
    from resume_cases [OF s(2) s(3), where ev = ev and L = L] r True s(1) assms(2,3) show ?thesis
      by (auto simp add: failed_def succeeded_def)
  qed
qed

text \<open>
  C8. Whatever the events, the answers of the services and the engine's limit on strings, at most one submission is in
  flight; \<open>loading\<close> is true exactly while one is, in particular while it is solving or
  submitting; a submit trigger then changes nothing, so no second submission starts; and
  \<open>loading\<close> turns false only in a step that ends the attempt with a result.
\<close>

theorem submit_guard:
  "length (inflight (run_events L evs initial_page)) \<le> 1
   \<and> loading (view (run_events L evs initial_page)) = (inflight (run_events L evs initial_page) \<noteq> [])
   \<and> (\<forall>q \<in> set (inflight (run_events L evs initial_page)).
         button_disabled (run_events L evs initial_page)
         \<and> react L Click (run_events L evs initial_page) = run_events L evs initial_page)
   \<and> (loading (view (run_events L evs initial_page))
         \<and> \<not> loading (view (react L ev (run_events L evs initial_page))) \<longrightarrow>
       result (view (react L ev (run_events L evs initial_page))) \<noteq> None
       \<and> inflight (react L ev (run_events L evs initial_page)) = [])"
proof -
  let ?pg = "run_events L evs initial_page"
  have inv: "guard_inv ?pg" by (rule guard_inv_run)
  then have a: "length (inflight ?pg) \<le> 1" and b: "loading (view ?pg) = (inflight ?pg \<noteq> [])"
    by (simp_all add: guard_inv_def)
  have c: "\<forall>q \<in> set (inflight ?pg). button_disabled ?pg \<and> react L Click ?pg = ?pg"
    using b by (auto simp add: button_disabled_def react_def)
  have d: "loading (view ?pg) \<and> \<not> loading (view (react L ev ?pg)) \<longrightarrow>
           result (view (react L ev ?pg)) \<noteq> None \<and> inflight (react L ev ?pg) = []"
    using release_only_at_end [OF inv] by blast
  from a b c d show ?thesis by blast
qed

theorem submit_guard_witness:
  "inflight (run_events v8_limit until_submitting initial_page) = [AwaitRegister]
   \<and> log (run_events v8_limit until_submitting initial_page) =
       [GetChallenge,
        RegisterUser (UserData ''alice'' ''pw'' ''2''
          ''0093941bbafbfb82a51b3931cc032c38717a7e791f108fc5c2ce04979018ef65'' False) ''t0'']
   \<and> loading (view (run_events v8_limit until_submitting initial_page))
   \<and> react v8_limit Click (run_events v8_limit until_submitting initial_page) = run_events v8_limit until_submitting initial_page"
proof -
  have run: "run_events v8_limit until_submitting initial_page =
      \<lparr>view = \<lparr>username = ''alice'', password = ''pw'', loading = True, result = None\<rparr>,
       inflight = [AwaitRegister],
       log = [GetChallenge,
              RegisterUser (UserData ''alice'' ''pw'' ''2''
                ''0093941bbafbfb82a51b3931cc032c38717a7e791f108fc5c2ce04979018ef65'' False) ''t0'']\<rparr>"
    using solve_ap_2
    by (simp add: until_submitting_def run_events_def react_def initial_page_def
        button_disabled_def handleSubmit_begin_def ap_challenge_def)
  from submit_guard [of v8_limit until_submitting] run show ?thesis by simp
qed

section \<open>Properties of the App and Login components\<close>

text \<open>
  C3. At startup, when a token is persisted and the Session Service rejects the request
  for the current user, the state stays logged out and the token is removed from storage;
  when no token is persisted, the state stays logged out and the Session Service is not
  called. (An empty string under the key counts as no token: no call is made.)
\<close>

theorem restore_rejected_or_absent:
  "(ls ''authToken'' = Some t \<and> t \<noteq> [] \<and> getCurrentUser api ls = Rejected e \<longrightarrow>
      \<not> isLoggedIn (app (restore api ls)) \<and> userData (app (restore api ls)) = None
      \<and> localStorage (restore api ls) ''authToken'' = None
      \<and> api_log (restore api ls) = [GetCurrentUser])
   \<and> (ls ''authToken'' = None \<or> ls ''authToken'' = Some [] \<longrightarrow>
      \<not> isLoggedIn (app (restore api ls)) \<and> userData (app (restore api ls)) = None
      \<and> localStorage (restore api ls) = ls
      \<and> api_log (restore api ls) = [])"
  by (auto simp add: restore_def checkAuth_def truthy_def initial_app_def)

theorem restore_rejected_or_absent_witness:
  "stale_token ''authToken'' = Some ''stale''
   \<and> \<not> isLoggedIn (app (restore profile_denied stale_token))
   \<and> localStorage (restore profile_denied stale_token) ''authToken'' = None
   \<and> api_log (restore profile_denied stale_token) = [GetCurrentUser]
   \<and> no_token ''authToken'' = None
   \<and> \<not> isLoggedIn (app (restore profile_denied no_token))
   \<and> api_log (restore profile_denied no_token) = []
   \<and> getCurrentUser friendly stale_token = Rejected TypeError
   \<and> \<not> isLoggedIn (app (restore friendly stale_token))
   \<and> localStorage (restore friendly stale_token) ''authToken'' = None"
  using restore_rejected_or_absent
      [of stale_token "''stale''" profile_denied "AxiosError (JString ''Could not validate credentials'')"]
    restore_rejected_or_absent [of no_token "''stale''" profile_denied]
    restore_rejected_or_absent [of stale_token "''stale''" friendly TypeError]
  by (simp add: stale_token_def no_token_def profile_denied_def friendly_def api_js_def)

text \<open>
  The handlers of Login and App, given an API object that has \<open>loginUser\<close> and
  \<open>getCurrentUser\<close>: they store the returned token and, once the profile is fetched, set the
  state to logged in with it.
\<close>

lemma login_given_both_methods:
  "loginUser api (login_username lf) (login_password lf) = Resolved tok \<Longrightarrow>
   getCurrentUser api ((localStorage w)(''authToken'' \<mapsto> tok)) = Resolved p \<Longrightarrow>
   isLoggedIn (app (snd (login L api (lf, w))))
   \<and> userData (app (snd (login L api (lf, w)))) = Some p
   \<and> localStorage (snd (login L api (lf, w))) ''authToken'' = Some tok"
  by (simp add: login_def Login_handleSubmit_def handleLogin_def Let_def)

lemma login_exported_api:
  "27 \<le> L \<Longrightarrow>
   login L (api_js challenge_answer register_answer) (lf, w) =
     (lf\<lparr>error := ''Login failed: Unknown error''\<rparr>,
      w\<lparr>api_log := api_log w @ [LoginUser (login_username lf) (login_password lf)]\<rparr>)"
  by (simp add: login_def Login_handleSubmit_def Let_def api_js_def js_or_def js_concat_def
      utf16_length_def)

text \<open>
  C5. With the exported API object, a login cannot succeed, whatever the credentials and the
  server: \<open>api.loginUser\<close> is not defined, the call throws a TypeError inside \<open>try\<close>, and the
  handler shows \<open>Login failed: Unknown error\<close>. No token is persisted, \<open>handleLogin\<close> is not
  called, and the state does not become logged in.
\<close>

theorem login_with_exported_api_fails:
  "login v8_limit friendly (alice_login, login_page) =
     (alice_login\<lparr>error := ''Login failed: Unknown error''\<rparr>,
      login_page\<lparr>api_log := [LoginUser ''alice'' ''pw'']\<rparr>)
   \<and> \<not> isLoggedIn (app (snd (login v8_limit friendly (alice_login, login_page))))
   \<and> userData (app (snd (login v8_limit friendly (alice_login, login_page)))) = None
   \<and> localStorage (snd (login v8_limit friendly (alice_login, login_page))) ''authToken'' = None"
proof -
  have "27 \<le> v8_limit" by (simp add: v8_limit_def)
  then have "login v8_limit friendly (alice_login, login_page) =
     (alice_login\<lparr>error := ''Login failed: Unknown error''\<rparr>,
      login_page\<lparr>api_log := api_log login_page
                     @ [LoginUser (login_username alice_login) (login_password alice_login)]\<rparr>)"
    unfolding friendly_def by (rule login_exported_api)
  then show ?thesis
    by (simp add: login_page_def alice_login_def initial_app_def no_token_def)
qed

text \<open>
  C9. \<open>handleLogout\<close> removes the persisted token and resets the state to logged out, whatever
  the state was, and a second call leaves what the first produced.
\<close>

theorem handleLogout_idempotent:
  "localStorage (handleLogout w) ''authToken'' = None
   \<and> \<not> isLoggedIn (app (handleLogout w))
   \<and> userData (app (handleLogout w)) = None
   \<and> handleLogout (handleLogout w) = handleLogout w"
  by (simp add: handleLogout_def)

theorem handleLogout_idempotent_witness:
  "localStorage (handleLogout logged_in) ''authToken'' = None
   \<and> handleLogout (handleLogout logged_in) = handleLogout logged_in
   \<and> isLoggedIn (app logged_in)"
  using handleLogout_idempotent [of logged_in] by (simp add: logged_in_def)


end
